theory Spec2Isabelle
  imports Complex_Main "HOL-Library.Word"
begin

section \<open>The inference pipeline notebook\<close>

text \<open>
  A shallow embedding of the cells of \<^verbatim>\<open>tools/inference/inference_pipeline.ipynb\<close>
  that carry logic of their own: the generation loop (the cell that starts with
  \<^verbatim>\<open>images = []\<close>), the regrouping of the CLIP logits and the ranked display.

  Everything the notebook calls but does not define (the PRNG of JAX, the DALL-E
  generator, the VQGAN decoder, CLIP) is a field of a record of library functions.
  The replicated parameter sets \<^verbatim>\<open>params\<close>, \<^verbatim>\<open>vqgan_params\<close> and
  \<^verbatim>\<open>clip_params\<close> never change and are part of these functions.
\<close>

subsection \<open>Values\<close>

datatype error = ZeroDivisionError | ValueError | IndexError | TypeError

type_synonym token = int

text \<open>
  A decoded pixel is a float: a finite number (a real here), one of the two
  infinities, or NaN. The rounding of a finite product to the float format is the
  library field \<open>float_round\<close>.
\<close>

datatype pixel = Finite real | PInf | MInf | NaN

text \<open>A PIL image is its 8-bit channel data in row-major order.\<close>

type_synonym image = "8 word list"

text \<open>The shape \<^verbatim>\<open>(256, 256, 3)\<close> of one image, as a number of channel values.\<close>

definition image_size :: nat where
  "image_size = 256 * 256 * 3"

record gen_config =
  gen_top_k :: "nat option"
  gen_top_p :: "real option"
  temperature :: "real option"
  cond_scale :: "real option"

record ('key, 'prompt) library =
  device_count :: nat
  random_split :: "'key \<Rightarrow> 'key list"
  shard_prng_key :: "'key \<Rightarrow> 'key list"
  model_generate :: "'prompt list \<Rightarrow> 'key \<Rightarrow> gen_config \<Rightarrow> token list list"
  decode_code :: "token list list \<Rightarrow> pixel list list"
  float_round :: "real \<Rightarrow> real"

text \<open>
  \<open>device_count\<close> is \<^verbatim>\<open>jax.device_count()\<close>; \<open>random_split\<close> is
  \<^verbatim>\<open>jax.random.split(key)\<close> with its default of two keys; \<open>shard_prng_key\<close> is
  flax's function of that name; \<open>model_generate\<close> is \<^verbatim>\<open>model.generate(...).sequences\<close>
  on one device, one token sequence per prompt of the batch; \<open>decode_code\<close> is
  \<^verbatim>\<open>vqgan.decode_code\<close> on one device, one flat pixel array per sequence.
\<close>

text \<open>
  The globals the generation cell reads and writes. The last two fields record the
  calls to the two parallel functions: the key shards given to \<^verbatim>\<open>p_generate\<close> and
  the token array given to \<^verbatim>\<open>p_decode\<close>, one entry per call.
\<close>

record 'key notebook =
  key :: 'key
  images :: "image list"
  generate_calls :: "'key list list"
  decode_calls :: "token list list list list"

subsection \<open>Pixels\<close>

text \<open>
  \<^verbatim>\<open>x.clip(0.0, 1.0)\<close> on one element: the minimum with 1 of the maximum with 0.
  An infinity is clipped like any other number; NaN stays NaN.
\<close>

fun clip01 :: "pixel \<Rightarrow> pixel" where
  "clip01 (Finite x) = Finite (min (max x 0) 1)"
| "clip01 PInf = Finite 1"
| "clip01 MInf = Finite 0"
| "clip01 NaN = NaN"

text \<open>The line \<^verbatim>\<open>decoded_images.clip(0.0, 1.0)\<close> on the array of all devices.\<close>

definition clip_array :: "pixel list list list \<Rightarrow> pixel list list list" where
  "clip_array decoded = map (map (map clip01)) decoded"

text \<open>
  The cast of a float to \<^verbatim>\<open>np.uint8\<close>: the fraction of a finite number is dropped
  (towards zero) and the integer is reduced modulo 256. C leaves the cast of NaN
  and of an infinity undefined; the usual hardware gives 0.
\<close>

fun to_uint8 :: "pixel \<Rightarrow> 8 word" where
  "to_uint8 (Finite x) = word_of_int (if x < 0 then \<lceil>x\<rceil> else \<lfloor>x\<rfloor>)"
| "to_uint8 PInf = 0"
| "to_uint8 MInf = 0"
| "to_uint8 NaN = 0"

text \<open>
  \<^verbatim>\<open>decoded_img * 255\<close> on one element: a finite product is rounded to the float
  format (one too large for the format is not modelled; after the clip there is
  none), an infinity keeps its sign, NaN stays NaN.
\<close>

fun scale255 :: "('key, 'prompt) library \<Rightarrow> pixel \<Rightarrow> pixel" where
  "scale255 L (Finite x) = Finite (float_round L (x * 255))"
| "scale255 L PInf = PInf"
| "scale255 L MInf = MInf"
| "scale255 L NaN = NaN"

text \<open>The ranges the specification speaks of: \<open>[0, 1]\<close> and \<open>[0, 255]\<close>.\<close>

fun in_unit_range :: "pixel \<Rightarrow> bool" where
  "in_unit_range (Finite x) = (0 \<le> x \<and> x \<le> 1)"
| "in_unit_range PInf = False"
| "in_unit_range MInf = False"
| "in_unit_range NaN = False"

fun in_byte_range :: "pixel \<Rightarrow> bool" where
  "in_byte_range (Finite x) = (0 \<le> x \<and> x \<le> 255)"
| "in_byte_range PInf = False"
| "in_byte_range MInf = False"
| "in_byte_range NaN = False"

text \<open>\<^verbatim>\<open>Image.fromarray(np.asarray(decoded_img * 255, dtype=np.uint8))\<close>\<close>

definition fromarray :: "('key, 'prompt) library \<Rightarrow> pixel list \<Rightarrow> image" where
  "fromarray L decoded_img = map (\<lambda>x. to_uint8 (scale255 L x)) decoded_img"

subsection \<open>Arrays\<close>

text \<open>Consecutive blocks of \<open>n\<close> elements.\<close>

definition chunks :: "nat \<Rightarrow> 'a list \<Rightarrow> 'a list list" where
  "chunks n xs = map (\<lambda>i. take n (drop (i * n) xs)) [0..<length xs div n]"

text \<open>
  \<^verbatim>\<open>.reshape((-1, 256, 256, 3))\<close> on the row-major data of a JAX array: JAX raises
  TypeError when the size is no multiple of \<^verbatim>\<open>256 * 256 * 3\<close>.
\<close>

definition reshape_images :: "pixel list \<Rightarrow> error + pixel list list" where
  "reshape_images xs =
     (if length xs mod image_size \<noteq> 0 then Inl TypeError
      else Inr (chunks image_size xs))"

text \<open>\<^verbatim>\<open>.sequences[..., 1:]\<close>: the slice from index 1 on the last axis.\<close>

definition remove_bos :: "token list list list \<Rightarrow> token list list list" where
  "remove_bos sequences = map (map (drop 1)) sequences"

subsection \<open>The parallel functions\<close>

text \<open>
  \<^verbatim>\<open>jax.pmap\<close> maps over the leading axis of its arguments, which must have the
  same size in all of them (ValueError otherwise). The parameters are replicated
  once per device, so that size is the device count. The four generation settings
  are static and broadcast.
\<close>

definition p_generate ::
  "('key, 'prompt) library \<Rightarrow> 'prompt list list \<Rightarrow> 'key list \<Rightarrow> gen_config
     \<Rightarrow> error + token list list list" where
  "p_generate L tokenized_prompt keys cfg =
     (if length tokenized_prompt = device_count L \<and> length keys = device_count L
      then Inr (map2 (\<lambda>tp k. model_generate L tp k cfg) tokenized_prompt keys)
      else Inl ValueError)"

definition p_decode ::
  "('key, 'prompt) library \<Rightarrow> token list list list \<Rightarrow> error + pixel list list list" where
  "p_decode L indices =
     (if length indices = device_count L then Inr (map (decode_code L) indices)
      else Inl ValueError)"

subsection \<open>The generation loop\<close>

text \<open>
  One pass through the body of the loop. \<^verbatim>\<open>key, subkey = jax.random.split(key)\<close>
  unpacks exactly two keys (ValueError otherwise). The images are appended in the
  order of the reshaped array.
\<close>

definition generation_round ::
  "('key, 'prompt) library \<Rightarrow> gen_config \<Rightarrow> 'prompt list list \<Rightarrow> 'key notebook
     \<Rightarrow> error + 'key notebook" where
  "generation_round L cfg tokenized_prompt st =
     (case random_split L (key st) of
        [key', subkey] \<Rightarrow>
          (case p_generate L tokenized_prompt (shard_prng_key L subkey) cfg of
             Inl e \<Rightarrow> Inl e
           | Inr sequences \<Rightarrow>
               (case p_decode L (remove_bos sequences) of
                  Inl e \<Rightarrow> Inl e
                | Inr decoded \<Rightarrow>
                    (case reshape_images (concat (concat (clip_array decoded))) of
                       Inl e \<Rightarrow> Inl e
                     | Inr decoded_images \<Rightarrow>
                         Inr (st\<lparr>key := key',
                                 images := images st @ map (fromarray L) decoded_images,
                                 generate_calls :=
                                   generate_calls st @ [shard_prng_key L subkey],
                                 decode_calls :=
                                   decode_calls st @ [remove_bos sequences]\<rparr>))))
      | _ \<Rightarrow> Inl ValueError)"

text \<open>\<^verbatim>\<open>for i in trange(k)\<close>: \<open>k\<close> passes, stopping at the first exception.\<close>

primrec run_rounds ::
  "('key, 'prompt) library \<Rightarrow> gen_config \<Rightarrow> 'prompt list list \<Rightarrow> nat \<Rightarrow> 'key notebook
     \<Rightarrow> error + 'key notebook" where
  "run_rounds L cfg tokenized_prompt 0 st = Inr st"
| "run_rounds L cfg tokenized_prompt (Suc k) st =
     (case generation_round L cfg tokenized_prompt st of
        Inl e \<Rightarrow> Inl e
      | Inr st' \<Rightarrow> run_rounds L cfg tokenized_prompt k st')"

text \<open>
  \<^verbatim>\<open>max(n_predictions // jax.device_count(), 1)\<close>: Python's floor division, which
  raises ZeroDivisionError on a zero divisor.
\<close>

definition n_rounds :: "int \<Rightarrow> nat \<Rightarrow> error + nat" where
  "n_rounds n_predictions d =
     (if d = 0 then Inl ZeroDivisionError
      else Inr (nat (max (n_predictions div int d) 1)))"

text \<open>The globals when the generation cell starts: \<^verbatim>\<open>images = []\<close>.\<close>

definition fresh :: "'key \<Rightarrow> 'key notebook" where
  "fresh key0 = \<lparr>key = key0, images = [], generate_calls = [], decode_calls = []\<rparr>"

text \<open>
  The generation cell: \<^verbatim>\<open>images = []\<close>, then the loop. \<open>tokenized_prompts\<close> is
  the batch the processor made of the prompts, one entry per prompt;
  \<^verbatim>\<open>replicate\<close> copies it once per device.
\<close>

definition generate_images ::
  "('key, 'prompt) library \<Rightarrow> gen_config \<Rightarrow> 'prompt list \<Rightarrow> int \<Rightarrow> 'key
     \<Rightarrow> error + 'key notebook" where
  "generate_images L cfg tokenized_prompts n_predictions key0 =
     (case n_rounds n_predictions (device_count L) of
        Inl e \<Rightarrow> Inl e
      | Inr k \<Rightarrow>
          run_rounds L cfg (replicate (device_count L) tokenized_prompts) k (fresh key0))"

text \<open>What a run of the cell shows: the number of passes it made, and its images.\<close>

definition rounds_performed :: "error + 'key notebook \<Rightarrow> nat option" where
  "rounds_performed r = (case r of Inl e \<Rightarrow> None | Inr st \<Rightarrow> Some (length (generate_calls st)))"

definition images_produced :: "error + 'key notebook \<Rightarrow> nat option" where
  "images_produced r = (case r of Inl e \<Rightarrow> None | Inr st \<Rightarrow> Some (length (images st)))"

text \<open>
  The contract of the library the loop relies on: the split gives two keys, the
  sharding one key per device, the generator one sequence per prompt, the decoder
  one image of \<open>image_size\<close> values per sequence.
\<close>

definition well_shaped :: "('key, 'prompt) library \<Rightarrow> bool" where
  "well_shaped L \<longleftrightarrow>
     (\<forall>k. length (random_split L k) = 2) \<and>
     (\<forall>k. length (shard_prng_key L k) = device_count L) \<and>
     (\<forall>tp k cfg. length (model_generate L tp k cfg) = length tp) \<and>
     (\<forall>seqs. map length (decode_code L seqs) = replicate (length seqs) image_size)"

text \<open>A rounding to a float format: monotone, and exact on 0 and 255.\<close>

definition rounding :: "(real \<Rightarrow> real) \<Rightarrow> bool" where
  "rounding f \<longleftrightarrow> mono f \<and> f 0 = 0 \<and> f 255 = 255"

subsection \<open>Scoring with CLIP\<close>

text \<open>
  A numpy array as nested lists: a scalar, or the list of the sub-arrays along the
  first axis.
\<close>

datatype 'a nd = Sc 'a | Arr "'a nd list"

text \<open>
  What the ranking cell prints and displays, in order. Blank lines are left out,
  and a score is the number itself, not its print with two decimals.
\<close>

datatype 'text event = Prompt 'text | Show image | Score real

text \<open>
  flax's \<^verbatim>\<open>shard\<close>: the leading axis is reshaped to one block per device, which
  fails when the device count does not divide its size.
\<close>

definition shard :: "nat \<Rightarrow> 'a list \<Rightarrow> error + 'a list list" where
  "shard d xs =
     (if d = 0 \<or> length xs mod d \<noteq> 0 then Inl ValueError
      else Inr (map (\<lambda>j. take (length xs div d) (drop (j * (length xs div d)) xs)) [0..<d]))"

text \<open>
  \<^verbatim>\<open>clip(...).logits_per_image\<close> on one device: a row per image, a column per
  text. The entry of an image and a text is the library function \<open>clip_score\<close>.
\<close>

definition logits_per_image ::
  "(image \<Rightarrow> 'text \<Rightarrow> real) \<Rightarrow> image list \<Rightarrow> 'text list \<Rightarrow> real list list" where
  "logits_per_image clip_score imgs texts = map (\<lambda>img. map (clip_score img) texts) imgs"

definition p_clip ::
  "(image \<Rightarrow> 'text \<Rightarrow> real) \<Rightarrow> 'text list list \<Rightarrow> image list list
     \<Rightarrow> error + real list list list" where
  "p_clip clip_score texts imgs =
     (if length texts = length imgs
      then Inr (map2 (\<lambda>t i. logits_per_image clip_score i t) texts imgs)
      else Inl ValueError)"

text \<open>
  \<^verbatim>\<open>p_clip(shard(clip_inputs), clip_params)\<close> with
  \<^verbatim>\<open>text=prompts * jax.device_count()\<close> and \<^verbatim>\<open>images=images\<close>.
\<close>

definition clip_logits ::
  "(image \<Rightarrow> 'text \<Rightarrow> real) \<Rightarrow> nat \<Rightarrow> 'text list \<Rightarrow> image list
     \<Rightarrow> error + real list list list" where
  "clip_logits clip_score d prompts all_images =
     (case shard d (concat (replicate d prompts)) of
        Inl e \<Rightarrow> Inl e
      | Inr texts \<Rightarrow>
          (case shard d all_images of
             Inl e \<Rightarrow> Inl e
           | Inr imgs \<Rightarrow> p_clip clip_score texts imgs))"

text \<open>The slice \<^verbatim>\<open>xs[i::p]\<close>, of \<open>ceil ((len xs - i) / p)\<close> elements.\<close>

definition slice_from_step :: "nat \<Rightarrow> nat \<Rightarrow> 'a list \<Rightarrow> 'a list" where
  "slice_from_step i p xs = map (\<lambda>k. xs ! (i + k * p)) [0..<(length xs - i + p - 1) div p]"

text \<open>\<^verbatim>\<open>.squeeze()\<close>: every axis of length one is removed.\<close>

fun squeeze :: "'a nd \<Rightarrow> 'a nd" where
  "squeeze (Sc x) = Sc x"
| "squeeze (Arr [x]) = squeeze x"
| "squeeze (Arr xs) = Arr (map squeeze xs)"

text \<open>
  \<^verbatim>\<open>np.asarray\<close> of a list of two-dimensional arrays: they must have one shape
  (ValueError otherwise).
\<close>

definition asarray :: "real list list list \<Rightarrow> error + real nd" where
  "asarray groups =
     (if list_all (\<lambda>g. map length g = map length (hd groups)) groups
      then Inr (Arr (map (\<lambda>g. Arr (map (\<lambda>row. Arr (map Sc row)) g)) groups))
      else Inl ValueError)"

text \<open>
  \<^verbatim>\<open>np.asarray([logits[:, i::p, i] for i in range(p)]).squeeze()\<close>. Every row of
  the logits has one column per prompt, so the column \<open>i < p\<close> exists.
\<close>

definition organize_scores :: "nat \<Rightarrow> real list list list \<Rightarrow> error + real nd" where
  "organize_scores p logits =
     (case asarray (map (\<lambda>i. map (\<lambda>dev. map (\<lambda>row. row ! i) (slice_from_step i p dev)) logits)
                     [0..<p]) of
        Inl e \<Rightarrow> Inl e
      | Inr a \<Rightarrow> Inr (squeeze a))"

text \<open>\<^verbatim>\<open>a[i]\<close> for an index that is not negative: a scalar has no elements.\<close>

definition getitem :: "'a nd \<Rightarrow> nat \<Rightarrow> error + 'a nd" where
  "getitem a i =
     (case a of
        Sc x \<Rightarrow> Inl IndexError
      | Arr xs \<Rightarrow> if i < length xs then Inr (xs ! i) else Inl IndexError)"

text \<open>The values of a list of scalars; nothing when an element is an array.\<close>

fun scalars :: "'a nd list \<Rightarrow> 'a list option" where
  "scalars [] = Some []"
| "scalars (Sc x # xs) = (case scalars xs of None \<Rightarrow> None | Some vs \<Rightarrow> Some (x # vs))"
| "scalars (Arr ys # xs) = None"

text \<open>
  The indices of a list in the ascending order of their values. Here equal values
  keep the order of their indices; numpy's default sort does not promise that, so
  among equal scores the cell may show the images in another order, and what is
  proved of the order below is for scores that differ.
\<close>

definition argsort_list :: "real list \<Rightarrow> nat list" where
  "argsort_list vs = sort_key (\<lambda>k. vs ! k) [0..<length vs]"

text \<open>
  \<^verbatim>\<open>.argsort()\<close>, as the list of the sub-arrays of its result: it sorts along
  the last axis, and takes a scalar for an array of one element.
\<close>

fun argsort :: "real nd \<Rightarrow> nat nd list" where
  "argsort (Sc x) = [Sc 0]"
| "argsort (Arr xs) =
     (case scalars xs of
        Some vs \<Rightarrow> map Sc (argsort_list vs)
      | None \<Rightarrow> map (\<lambda>x. Arr (argsort x)) xs)"

text \<open>
  The inner loop of the ranking cell over the indices \<open>idx\<close>, for the prompt \<open>i\<close>
  and its scores \<open>row\<close>. \<^verbatim>\<open>display(images[idx*p+i])\<close> needs a scalar index
  (TypeError for an array) inside the list (IndexError); the score
  \<^verbatim>\<open>logits[i][idx]\<close> must be a scalar to be printed with two decimals. What was
  shown before an exception stays shown.
\<close>

fun show_ranked ::
  "image list \<Rightarrow> nat \<Rightarrow> nat \<Rightarrow> real nd \<Rightarrow> nat nd list \<Rightarrow> 'text event list \<times> error option" where
  "show_ranked all_images p i row [] = ([], None)"
| "show_ranked all_images p i row (Arr ks # rest) = ([], Some TypeError)"
| "show_ranked all_images p i row (Sc idx # rest) =
     (if length all_images \<le> idx * p + i then ([], Some IndexError)
      else
        (case getitem row idx of
           Inl e \<Rightarrow> ([Show (all_images ! (idx * p + i))], Some e)
         | Inr (Arr vs) \<Rightarrow> ([Show (all_images ! (idx * p + i))], Some TypeError)
         | Inr (Sc v) \<Rightarrow>
             (case show_ranked all_images p i row rest of
                (evs, err) \<Rightarrow> (Show (all_images ! (idx * p + i)) # Score v # evs, err))))"

text \<open>
  The outer loop \<^verbatim>\<open>for i, prompt in enumerate(prompts)\<close>, from the index \<open>i\<close> on:
  the indices are \<^verbatim>\<open>logits[i].argsort()[::-1]\<close>.
\<close>

fun display_prompts ::
  "image list \<Rightarrow> nat \<Rightarrow> real nd \<Rightarrow> nat \<Rightarrow> 'text list \<Rightarrow> 'text event list \<times> error option" where
  "display_prompts all_images p logits i [] = ([], None)"
| "display_prompts all_images p logits i (prompt # rest) =
     (case getitem logits i of
        Inl e \<Rightarrow> ([Prompt prompt], Some e)
      | Inr row \<Rightarrow>
          (case show_ranked all_images p i row (rev (argsort row)) of
             (evs, Some e) \<Rightarrow> (Prompt prompt # evs, Some e)
           | (evs, None) \<Rightarrow>
               (case display_prompts all_images p logits (Suc i) rest of
                  (evs', err) \<Rightarrow> (Prompt prompt # evs @ evs', err))))"

text \<open>The two cells of the ranking, one after the other.\<close>

definition rank_images ::
  "(image \<Rightarrow> 'text \<Rightarrow> real) \<Rightarrow> nat \<Rightarrow> 'text list \<Rightarrow> image list
     \<Rightarrow> 'text event list \<times> error option" where
  "rank_images clip_score d prompts all_images =
     (case clip_logits clip_score d prompts all_images of
        Inl e \<Rightarrow> ([], Some e)
      | Inr logits \<Rightarrow>
          (case organize_scores (length prompts) logits of
             Inl e \<Rightarrow> ([], Some e)
           | Inr a \<Rightarrow> display_prompts all_images (length prompts) a 0 prompts))"

text \<open>
  What the ranking is to show, in the words of the specification: the scores of
  the prompt \<open>i\<close> are those of the images at the positions \<open>i, i + p, i + 2p, \<dots>\<close>
  of the list, and for each prompt these images are shown in the descending order
  of their scores, each with its score.
\<close>

definition prompt_scores ::
  "(image \<Rightarrow> 'text \<Rightarrow> real) \<Rightarrow> 'text list \<Rightarrow> image list \<Rightarrow> nat \<Rightarrow> real list" where
  "prompt_scores clip_score prompts all_images i =
     map (\<lambda>k. clip_score (all_images ! (i + k * length prompts)) (prompts ! i))
       [0..<length all_images div length prompts]"

definition ranked_display ::
  "(image \<Rightarrow> 'text \<Rightarrow> real) \<Rightarrow> 'text list \<Rightarrow> image list \<Rightarrow> 'text event list" where
  "ranked_display clip_score prompts all_images =
     concat (map (\<lambda>i. Prompt (prompts ! i) #
                concat (map (\<lambda>k. [Show (all_images ! (i + k * length prompts)),
                                   Score (clip_score (all_images ! (i + k * length prompts))
                                            (prompts ! i))])
                         (rev (argsort_list (prompt_scores clip_score prompts all_images i)))))
              [0..<length prompts])"

text \<open>A small scorer: the sum of the channel values and the length of the text.\<close>

definition toy_score :: "image \<Rightarrow> string \<Rightarrow> real" where
  "toy_score img t = real (sum_list (map unat img)) / 10 + real (length t)"

subsection \<open>A small library\<close>

text \<open>
  A concrete library on which the theorems are instantiated: keys are numbers, the
  split of \<open>k\<close> is \<open>2k+1\<close> and \<open>2k+2\<close>, the generator puts the token 16384 in
  front of the key and the prompt, the decoder paints an image in one grey level
  between \<open>-1/2\<close> and 1 that depends on every token it is given, and products
  are rounded to multiples of \<open>1/256\<close>.
\<close>

definition toy_library :: "nat \<Rightarrow> (nat, nat) library" where
  "toy_library d =
     \<lparr>device_count = d,
      random_split = (\<lambda>k. [2 * k + 1, 2 * k + 2]),
      shard_prng_key = (\<lambda>k. map (\<lambda>i. k * 1000 + i) [0..<d]),
      model_generate = (\<lambda>tp k cfg. map (\<lambda>t. [16384, int k, int t]) tp),
      decode_code =
        (\<lambda>seqs. map (\<lambda>s. replicate image_size
                             (Finite ((real_of_int (sum_list s mod 7) - 2) / 4))) seqs),
      float_round = (\<lambda>x. real_of_int \<lfloor>x * 256 + 1 / 2\<rfloor> / 256)\<rparr>"

definition default_config :: gen_config where
  "default_config =
     \<lparr>gen_top_k = None, gen_top_p = None, temperature = None, cond_scale = Some 10\<rparr>"

subsection \<open>Names for the parts of a run\<close>

text \<open>
  Of the two keys of a split, the first is kept as the running key and the second
  is handed to the generator.
\<close>

definition retained :: "('key, 'prompt) library \<Rightarrow> 'key \<Rightarrow> 'key" where
  "retained L k = hd (random_split L k)"

definition handed :: "('key, 'prompt) library \<Rightarrow> 'key \<Rightarrow> 'key" where
  "handed L k = hd (tl (random_split L k))"

text \<open>The running key after \<open>j\<close> passes that started from \<open>k0\<close>.\<close>

definition chain :: "('key, 'prompt) library \<Rightarrow> 'key \<Rightarrow> nat \<Rightarrow> 'key" where
  "chain L k0 j = (retained L ^^ j) k0"

text \<open>
  What a pass that hands out \<open>subkey\<close> gives to the decoder, and the images it
  appends, for a library that keeps its contract.
\<close>

definition encoded ::
  "('key, 'prompt) library \<Rightarrow> gen_config \<Rightarrow> 'prompt list \<Rightarrow> 'key \<Rightarrow> token list list list" where
  "encoded L cfg tps subkey =
     remove_bos (map (\<lambda>k. model_generate L tps k cfg) (shard_prng_key L subkey))"

definition new_images ::
  "('key, 'prompt) library \<Rightarrow> gen_config \<Rightarrow> 'prompt list \<Rightarrow> 'key \<Rightarrow> image list" where
  "new_images L cfg tps subkey =
     map (\<lambda>img. fromarray L (map clip01 img))
       (concat (map (decode_code L) (encoded L cfg tps subkey)))"

text \<open>
  The keys a run derived (the shards of each pass, and the running key at the
  end), and the size of the batch of each pass (the number of key shards, one per
  device).
\<close>

definition derived_keys :: "error + 'key notebook \<Rightarrow> ('key list list \<times> 'key) option" where
  "derived_keys r = (case r of Inl e \<Rightarrow> None | Inr st \<Rightarrow> Some (generate_calls st, key st))"

definition batch_sizes :: "error + 'key notebook \<Rightarrow> nat list option" where
  "batch_sizes r = (case r of Inl e \<Rightarrow> None | Inr st \<Rightarrow> Some (map length (generate_calls st)))"

text \<open>The small library with another generator and another decoder.\<close>

definition alt_library :: "nat \<Rightarrow> (nat, nat) library" where
  "alt_library d =
     (toy_library d)\<lparr>model_generate := (\<lambda>tp k cfg. map (\<lambda>t. [16384, 0, 7, int t]) tp),
       decode_code := (\<lambda>seqs. map (\<lambda>s. replicate image_size (Finite 2)) seqs)\<rparr>"

text \<open>The small library with a decoder whose pixels are all NaN.\<close>

definition nan_library :: "nat \<Rightarrow> (nat, nat) library" where
  "nan_library d =
     (toy_library d)\<lparr>decode_code := (\<lambda>seqs. map (\<lambda>s. replicate image_size NaN) seqs)\<rparr>"

section \<open>Properties\<close>

subsection \<open>Pixels\<close>

lemma clip01_range: "x \<noteq> NaN \<Longrightarrow> in_unit_range (clip01 x)"
  by (cases x) simp_all

lemma clip01_finite:
  "x \<noteq> NaN \<Longrightarrow> \<exists>c. clip01 x = Finite c \<and> 0 \<le> c \<and> c \<le> 1"
  by (cases x) simp_all

lemma rounding_range:
  assumes "rounding f" and "0 \<le> y" and "y \<le> 255"
  shows "0 \<le> f y \<and> f y \<le> 255"
proof -
  from assms(1) have m: "mono f" and z: "f 0 = 0" and t: "f 255 = 255"
    by (simp_all add: rounding_def)
  from m assms(2) have "f 0 \<le> f y" by (rule monoD)
  moreover from m assms(3) have "f y \<le> f 255" by (rule monoD)
  ultimately show ?thesis using z t by simp
qed

lemma to_uint8_exact:
  assumes "0 \<le> y" and "y \<le> 255"
  shows "uint (to_uint8 (Finite y)) = \<lfloor>y\<rfloor>"
proof -
  have lo: "0 \<le> \<lfloor>y\<rfloor>" using assms(1) by simp
  have hi: "\<lfloor>y\<rfloor> \<le> 255" using assms(2) by (simp add: floor_le_iff)
  have "uint (word_of_int \<lfloor>y\<rfloor> :: 8 word) = \<lfloor>y\<rfloor> mod 256"
    by (simp add: uint_word_of_int)
  also have "\<dots> = \<lfloor>y\<rfloor>" using lo hi by simp
  finally show ?thesis using assms(1) by simp
qed

lemma toy_rounding: "rounding (float_round (toy_library d))"
  unfolding rounding_def toy_library_def
  by (auto intro!: monoI divide_right_mono floor_mono simp: )

subsection \<open>The generation loop in closed form\<close>

lemma chunks_append:
  assumes "0 < n" and "length x = n"
  shows "chunks n (x @ ys) = x # chunks n ys"
proof -
  have d: "length (x @ ys) div n = Suc (length ys div n)"
    using assms by simp
  have "[0..<Suc (length ys div n)] = 0 # map Suc [0..<length ys div n]"
    by (simp add: upt_conv_Cons map_Suc_upt del: upt_Suc)
  then show ?thesis
    using assms unfolding chunks_def d by (simp add: o_def del: upt_Suc)
qed

lemma chunks_concat:
  assumes "0 < n" and "map length xss = replicate (length xss) n"
  shows "chunks n (concat xss) = xss"
  using assms(2)
proof (induction xss)
  case Nil
  show ?case by (simp add: chunks_def)
next
  case (Cons x xss)
  then have "length x = n" and "map length xss = replicate (length xss) n" by simp_all
  with Cons.IH assms(1) show ?case by (simp add: chunks_append)
qed

lemma length_concat_uniform:
  "map length xss = replicate (length xss) n \<Longrightarrow> length (concat xss) = length xss * n"
  by (simp add: length_concat sum_list_replicate)

lemma map2_replicate:
  "length ys = d \<Longrightarrow> map2 f (replicate d x) ys = map (f x) ys"
  by (induction ys arbitrary: d) auto

lemma split_two:
  assumes "well_shaped L"
  shows "random_split L k = [retained L k, handed L k]"
proof -
  from assms have "length (random_split L k) = 2" by (simp add: well_shaped_def)
  then obtain a b where "random_split L k = [a, b]"
    by (cases "random_split L k" rule: list.exhaust) (auto simp: length_Suc_conv)
  then show ?thesis by (simp add: retained_def handed_def)
qed

lemma length_encoded:
  "well_shaped L \<Longrightarrow> length (encoded L cfg tps subkey) = device_count L"
  by (simp add: encoded_def remove_bos_def well_shaped_def)

lemma decoded_shape:
  assumes "well_shaped L"
  shows "map length (concat (map (decode_code L) enc)) =
         replicate (length (concat (map (decode_code L) enc))) image_size"
proof -
  have "\<forall>x \<in> set (concat (map (decode_code L) enc)). length x = image_size"
  proof
    fix x assume "x \<in> set (concat (map (decode_code L) enc))"
    then obtain seqs where "x \<in> set (decode_code L seqs)" by auto
    moreover from assms have "map length (decode_code L seqs) = replicate (length seqs) image_size"
      by (simp add: well_shaped_def)
    ultimately have "length x \<in> set (replicate (length seqs) image_size)"
      by (metis image_eqI list.set_map)
    then show "length x = image_size" by auto
  qed
  then show ?thesis by (simp add: map_replicate_const[symmetric] cong: map_cong)
qed

lemma image_size_pos: "0 < image_size"
  by (simp add: image_size_def)

lemma reshape_decoded:
  assumes "well_shaped L"
  shows "reshape_images (concat (concat (clip_array (map (decode_code L) enc)))) =
         Inr (map (map clip01) (concat (map (decode_code L) enc)))"
proof -
  let ?imgs = "map (map clip01) (concat (map (decode_code L) enc))"
  have e: "concat (clip_array (map (decode_code L) enc)) = ?imgs"
    by (simp add: clip_array_def map_concat)
  have s: "map length ?imgs = replicate (length ?imgs) image_size"
    using decoded_shape[OF assms, of enc] by (simp add: o_def)
  have "length (concat ?imgs) mod image_size = 0"
    by (simp add: length_concat_uniform[OF s])
  moreover have "chunks image_size (concat ?imgs) = ?imgs"
    by (rule chunks_concat[OF image_size_pos s])
  ultimately show ?thesis unfolding e reshape_images_def by simp
qed

lemma generation_round_closed:
  assumes "well_shaped L"
  shows "generation_round L cfg (replicate (device_count L) tps) st =
         Inr (st\<lparr>key := retained L (key st),
                 images := images st @ new_images L cfg tps (handed L (key st)),
                 generate_calls := generate_calls st @ [shard_prng_key L (handed L (key st))],
                 decode_calls := decode_calls st @ [encoded L cfg tps (handed L (key st))]\<rparr>)"
proof -
  let ?sub = "handed L (key st)"
  have len: "length (shard_prng_key L ?sub) = device_count L"
    using assms by (simp add: well_shaped_def)
  have g: "p_generate L (replicate (device_count L) tps) (shard_prng_key L ?sub) cfg =
           Inr (map (\<lambda>k. model_generate L tps k cfg) (shard_prng_key L ?sub))"
    by (simp add: p_generate_def len map2_replicate)
  have d: "p_decode L (encoded L cfg tps ?sub) = Inr (map (decode_code L) (encoded L cfg tps ?sub))"
    by (simp add: p_decode_def length_encoded[OF assms])
  show ?thesis
    unfolding generation_round_def split_two[OF assms]
    apply (simp only: list.case g sum.case encoded_def[symmetric] d reshape_decoded[OF assms])
    apply (simp add: new_images_def)
    done
qed

lemma run_rounds_closed:
  assumes "well_shaped L"
  shows "run_rounds L cfg (replicate (device_count L) tps) k st =
         Inr (st\<lparr>key := chain L (key st) k,
                 images := images st @
                   concat (map (\<lambda>j. new_images L cfg tps (handed L (chain L (key st) j))) [0..<k]),
                 generate_calls := generate_calls st @
                   map (\<lambda>j. shard_prng_key L (handed L (chain L (key st) j))) [0..<k],
                 decode_calls := decode_calls st @
                   map (\<lambda>j. encoded L cfg tps (handed L (chain L (key st) j))) [0..<k]\<rparr>)"
proof (induction k arbitrary: st)
  case 0
  show ?case by (simp add: chain_def)
next
  case (Suc k)
  have u: "[0..<Suc k] = 0 # map Suc [0..<k]"
    by (simp add: upt_conv_Cons map_Suc_upt del: upt_Suc)
  have c: "\<And>j. chain L (retained L (key st)) j = chain L (key st) (Suc j)"
    by (simp add: chain_def funpow_swap1)
  have z: "chain L (key st) 0 = key st"
    by (simp add: chain_def)
  show ?case
    unfolding run_rounds.simps generation_round_closed[OF assms] u
    by (simp add: Suc.IH c z o_def del: upt_Suc)
qed

lemma toy_well_shaped: "well_shaped (toy_library d)"
  by (simp add: well_shaped_def toy_library_def o_def map_replicate_const)

lemma length_decode_all:
  assumes "well_shaped L"
  shows "length (concat (map (decode_code L) enc)) = length (concat enc)"
proof -
  have "\<And>seqs. length (decode_code L seqs) = length seqs"
  proof -
    fix seqs
    from assms have "map length (decode_code L seqs) = replicate (length seqs) image_size"
      by (simp add: well_shaped_def)
    then have "length (map length (decode_code L seqs)) = length (replicate (length seqs) image_size)"
      by simp
    then show "length (decode_code L seqs) = length seqs" by simp
  qed
  then show ?thesis by (simp add: length_concat o_def)
qed

lemma length_new_images:
  assumes "well_shaped L"
  shows "length (new_images L cfg tps subkey) = device_count L * length tps"
proof -
  from assms have g: "\<And>k. length (model_generate L tps k cfg) = length tps"
    and s: "length (shard_prng_key L subkey) = device_count L"
    by (simp_all add: well_shaped_def)
  have "length (concat (encoded L cfg tps subkey)) = device_count L * length tps"
    by (simp add: encoded_def remove_bos_def length_concat o_def g sum_list_triv s
          cong: map_cong)
  then show ?thesis
    by (simp add: new_images_def length_decode_all[OF assms])
qed

lemma length_concat_rounds:
  assumes "well_shaped L"
  shows "length (concat (map (\<lambda>j. new_images L cfg tps (f j)) [0..<k])) =
         k * (device_count L * length tps)"
  by (simp add: length_concat o_def length_new_images[OF assms] sum_list_triv del: upt_Suc)

lemma generate_images_closed:
  assumes "well_shaped L" and "0 < device_count L"
  shows "generate_images L cfg tps n k0 =
         Inr \<lparr>key = chain L k0 (nat (max (n div int (device_count L)) 1)),
              images = concat (map (\<lambda>j. new_images L cfg tps (handed L (chain L k0 j)))
                          [0..<nat (max (n div int (device_count L)) 1)]),
              generate_calls = map (\<lambda>j. shard_prng_key L (handed L (chain L k0 j)))
                          [0..<nat (max (n div int (device_count L)) 1)],
              decode_calls = map (\<lambda>j. encoded L cfg tps (handed L (chain L k0 j)))
                          [0..<nat (max (n div int (device_count L)) 1)]\<rparr>"
  using assms(2)
  by (simp add: generate_images_def n_rounds_def fresh_def run_rounds_closed[OF assms(1)]
        del: upt_Suc)

lemma rounds_performed_closed:
  assumes "well_shaped L" and "0 < device_count L"
  shows "rounds_performed (generate_images L cfg tps n k0) =
         Some (nat (max (n div int (device_count L)) 1))"
  by (simp add: generate_images_closed[OF assms] rounds_performed_def del: upt_Suc)

lemma images_produced_closed:
  assumes "well_shaped L" and "0 < device_count L"
  shows "images_produced (generate_images L cfg tps n k0) =
         Some (nat (max (n div int (device_count L)) 1) * (device_count L * length tps))"
  by (simp add: generate_images_closed[OF assms] images_produced_def
        length_concat_rounds[OF assms(1)] del: upt_Suc)

lemma rounds_vs_ceiling:
  fixes n :: int and d :: nat
  assumes "1 \<le> n" and "0 < d"
  shows "nat (max (n div int d) 1) = nat \<lceil>real_of_int n / real d\<rceil> \<longleftrightarrow> int d dvd n \<or> n < int d"
proof -
  have c: "\<lceil>real_of_int n / real d\<rceil> = - (- n div int d)"
    using ceiling_divide_eq_div[of n "int d"] by simp
  have nz: "int d \<noteq> 0" using assms(2) by simp
  show ?thesis
  proof (cases "n < int d")
    case True
    then have "n div int d = 0" using assms(1) by simp
    moreover have "n mod int d \<noteq> 0" using True assms(1) by simp
    ultimately show ?thesis using True by (simp add: c zdiv_zminus1_eq_if[OF nz])
  next
    case False
    then have q: "1 \<le> n div int d"
      using assms(2) by (simp add: pos_imp_zdiv_pos_iff  int_one_le_iff_zero_less)
    show ?thesis
    proof (cases "int d dvd n")
      case True
      then have "n mod int d = 0" by simp
      then show ?thesis using q True by (simp add: c zdiv_zminus1_eq_if[OF nz])
    next
      case nd: False
      then have "n mod int d \<noteq> 0" by (simp add: dvd_eq_mod_eq_0)
      then show ?thesis using q nd False by (simp add: c zdiv_zminus1_eq_if[OF nz])
    qed
  qed
qed

lemma alt_well_shaped: "well_shaped (alt_library d)"
  by (simp add: well_shaped_def alt_library_def toy_library_def o_def map_replicate_const)

lemma nan_well_shaped: "well_shaped (nan_library d)"
  by (simp add: well_shaped_def nan_library_def toy_library_def o_def map_replicate_const)

lemma derived_keys_closed:
  assumes "well_shaped L" and "0 < device_count L"
  shows "derived_keys (generate_images L cfg tps n k0) =
         Some (map (\<lambda>j. shard_prng_key L (handed L (chain L k0 j)))
                 [0..<nat (max (n div int (device_count L)) 1)],
               chain L k0 (nat (max (n div int (device_count L)) 1)))"
  by (simp add: generate_images_closed[OF assms] derived_keys_def del: upt_Suc)

lemma chain_cong:
  assumes "random_split L1 = random_split L2"
  shows "chain L1 k0 j = chain L2 k0 j" and "handed L1 k = handed L2 k"
proof -
  have "retained L1 = retained L2" using assms by (simp add: retained_def fun_eq_iff)
  then show "chain L1 k0 j = chain L2 k0 j" by (simp add: chain_def)
  show "handed L1 k = handed L2 k" using assms by (simp add: handed_def)
qed

lemma batch_sizes_closed:
  assumes "well_shaped L" and "0 < device_count L"
  shows "batch_sizes (generate_images L cfg tps n k0) =
         Some (replicate (nat (max (n div int (device_count L)) 1)) (device_count L))"
proof -
  from assms(1) have s: "\<And>k. length (shard_prng_key L k) = device_count L"
    by (simp add: well_shaped_def)
  show ?thesis
    by (simp add: generate_images_closed[OF assms] batch_sizes_def o_def s map_replicate_const
          del: upt_Suc)
qed

lemma p_generate_closed:
  assumes "well_shaped L"
  shows "p_generate L (replicate (device_count L) tps) (shard_prng_key L subkey) cfg =
         Inr (map (\<lambda>k. model_generate L tps k cfg) (shard_prng_key L subkey))"
proof -
  have "length (shard_prng_key L subkey) = device_count L"
    using assms by (simp add: well_shaped_def)
  then show ?thesis by (simp add: p_generate_def map2_replicate)
qed

lemma drop_1_tl: "drop (Suc 0) xs = tl xs"
  by (simp add: drop_Suc)

lemma remove_bos_tl: "remove_bos sequences = map (map tl) sequences"
  by (simp add: remove_bos_def drop_Suc cong: map_cong)

lemma toy_device_count: "device_count (toy_library d) = d"
  by (simp add: toy_library_def)

lemma toy_random_split: "random_split (toy_library d) k = [2 * k + 1, 2 * k + 2]"
  by (simp add: toy_library_def)

lemma toy_shard_2: "shard_prng_key (toy_library 2) k = [k * 1000, k * 1000 + 1]"
  by (simp add: toy_library_def upt_rec)

text \<open>One pass of the loop with the small library on two devices, evaluated.\<close>

lemma toy_decode_code:
  "decode_code (toy_library d) seqs =
     map (\<lambda>s. replicate image_size (Finite ((real_of_int (sum_list s mod 7) - 2) / 4))) seqs"
  by (simp add: toy_library_def)

lemma toy_pixels:
  "to_uint8 (scale255 (toy_library d) (clip01 (Finite (3 / 4)))) = 191"
  "to_uint8 (scale255 (toy_library d) (clip01 (Finite 1))) = 255"
  "to_uint8 (scale255 (toy_library d) (clip01 (Finite (- (1 / 2))))) = 0"
  by (simp_all add: toy_library_def)

lemma toy_pass:
  "generation_round (toy_library 2) default_config (replicate 2 [0, 1]) (fresh 7) =
     Inr \<lparr>key = 15,
          images = [replicate image_size 191, replicate image_size 255,
                    replicate image_size 255, replicate image_size 0],
          generate_calls = [[16000, 16001]],
          decode_calls = [[[[16000, 0], [16000, 1]], [[16001, 0], [16001, 1]]]]\<rparr>"
proof -
  have d: "replicate 2 [0, 1::nat] = replicate (device_count (toy_library 2 :: (nat, nat) library)) [0, 1]"
    by (simp add: toy_device_count)
  have h: "handed (toy_library 2) 7 = (16::nat)" and r: "retained (toy_library 2) 7 = (15::nat)"
    by (simp_all add: handed_def retained_def toy_random_split)
  have e: "encoded (toy_library 2) default_config [0, Suc 0] 16 =
           [[[16000, 0], [16000, 1]], [[16001, 0], [16001, 1]]]"
    by (simp add: encoded_def remove_bos_def toy_shard_2) (simp add: toy_library_def)
  have n: "new_images (toy_library 2) default_config [0, Suc 0] 16 =
           [replicate image_size 191, replicate image_size 255,
            replicate image_size 255, replicate image_size 0]"
    unfolding new_images_def e
    by (simp add: fromarray_def toy_decode_code toy_pixels
          del: clip01.simps scale255.simps to_uint8.simps)
  show ?thesis
    unfolding d generation_round_closed[OF toy_well_shaped]
    by (simp add: fresh_def h r e n toy_shard_2)
qed

subsection \<open>The ranking cells on one device\<close>

lemma shard_one: "shard (Suc 0) xs = Inr [xs]"
  by (simp add: shard_def)

lemma clip_logits_one:
  "clip_logits clip_score (Suc 0) prompts imgs = Inr [logits_per_image clip_score imgs prompts]"
  by (simp add: clip_logits_def shard_one p_clip_def)

lemma slice_length:
  assumes "i < p" and "length xs = m * p"
  shows "(length xs - i + p - 1) div p = m"
proof (cases m)
  case 0
  then show ?thesis using assms by simp
next
  case (Suc m')
  define r where "r = p - 1 - i"
  have "i \<le> m * p" using Suc assms(1) by simp
  then have e: "length xs - i + p - 1 = r + m * p"
    using assms by (simp add: r_def)
  have "r < p" using assms(1) by (simp add: r_def)
  then have "(r + m * p) div p = m" by simp
  then show ?thesis unfolding e .
qed

lemma position_in_range:
  assumes "i < p" and "k < m"
  shows "i + k * p < m * (p::nat)"
proof -
  have "i + k * p < p + k * p" using assms(1) by simp
  also have "\<dots> = Suc k * p" by simp
  also have "\<dots> \<le> m * p" using assms(2) by (intro mult_le_mono1) simp
  finally show ?thesis .
qed

lemma score_column:
  assumes "i < length prompts" and "length imgs = m * length prompts"
  shows "map (\<lambda>row. row ! i)
           (slice_from_step i (length prompts) (logits_per_image clip_score imgs prompts)) =
         prompt_scores clip_score prompts imgs i"
proof -
  have p: "0 < length prompts" using assms(1) by (cases prompts) simp_all
  have l: "length (logits_per_image clip_score imgs prompts) = m * length prompts"
    by (simp add: logits_per_image_def assms(2))
  have d: "length imgs div length prompts = m" using assms(2) p by simp
  have "\<And>k. k < m \<Longrightarrow> i + k * length prompts < length imgs"
    unfolding assms(2) by (rule position_in_range[OF assms(1)])
  then show ?thesis
    unfolding slice_from_step_def slice_length[OF assms(1) l] prompt_scores_def d
    by (simp add: logits_per_image_def assms(1))
qed

lemma squeeze_many:
  assumes "length xs \<noteq> 1"
  shows "squeeze (Arr xs) = Arr (map squeeze xs)"
proof (cases xs)
  case Nil
  then show ?thesis by simp
next
  case (Cons x ys)
  with assms obtain y zs where "ys = y # zs" by (cases ys) auto
  with Cons show ?thesis by simp
qed

lemma squeeze_row:
  assumes "length row \<noteq> 1"
  shows "squeeze (Arr [Arr (map Sc row)]) = Arr (map Sc row)"
proof -
  have "squeeze (Arr (map Sc row)) = Arr (map squeeze (map Sc row))"
    by (rule squeeze_many) (use assms in simp)
  then show ?thesis by (simp add: o_def)
qed

lemma length_prompt_scores:
  "length (prompt_scores clip_score prompts imgs i) = length imgs div length prompts"
  by (simp add: prompt_scores_def)

lemma organize_scores_one:
  assumes "length prompts \<noteq> 1" and "length imgs = m * length prompts" and "m \<noteq> 1"
  shows "organize_scores (length prompts) [logits_per_image clip_score imgs prompts] =
         Inr (Arr (map (\<lambda>i. Arr (map Sc (prompt_scores clip_score prompts imgs i)))
                [0..<length prompts]))"
proof -
  let ?p = "length prompts"
  let ?row = "prompt_scores clip_score prompts imgs"
  have g: "map (\<lambda>i. map (\<lambda>dev. map (\<lambda>row. row ! i) (slice_from_step i ?p dev))
                  [logits_per_image clip_score imgs prompts]) [0..<?p] =
           map (\<lambda>i. [?row i]) [0..<?p]"
    by (rule map_cong) (simp_all add: score_column[OF _ assms(2)])
  note len = length_prompt_scores
  have a: "asarray (map (\<lambda>i. [?row i]) [0..<?p]) =
           Inr (Arr (map (\<lambda>i. Arr [Arr (map Sc (?row i))]) [0..<?p]))"
  proof (cases "?p = 0")
    case True
    then show ?thesis by (simp add: asarray_def)
  next
    case False
    then have "hd (map (\<lambda>i. [?row i]) [0..<?p]) = [?row 0]"
      by (simp add: hd_map upt_conv_Cons del: upt_Suc)
    then show ?thesis
      by (simp add: asarray_def list_all_iff len o_def del: upt_Suc)
  qed
  have m: "\<And>i. length (?row i) \<noteq> 1"
  proof -
    fix i
    show "length (?row i) \<noteq> 1"
    proof (cases "?p = 0")
      case True
      then show ?thesis by (simp add: length_prompt_scores)
    next
      case False
      then show ?thesis using assms(2,3) by (simp add: length_prompt_scores)
    qed
  qed
  have "squeeze (Arr (map (\<lambda>i. Arr [Arr (map Sc (?row i))]) [0..<?p])) =
        Arr (map squeeze (map (\<lambda>i. Arr [Arr (map Sc (?row i))]) [0..<?p]))"
    by (rule squeeze_many) (use assms(1) in simp)
  also have "\<dots> = Arr (map (\<lambda>i. Arr (map Sc (?row i))) [0..<?p])"
    by (simp add: o_def squeeze_row[OF m] del: upt_Suc squeeze.simps)
  finally show ?thesis
    unfolding organize_scores_def g a by simp
qed

lemma scalars_Sc: "scalars (map Sc vs) = Some vs"
  by (induction vs) simp_all

lemma argsort_row: "argsort (Arr (map Sc vs)) = map Sc (argsort_list vs)"
  by (simp add: scalars_Sc)

lemma set_argsort_list: "set (argsort_list vs) = {0..<length vs}"
  by (simp add: argsort_list_def)

lemma show_ranked_row:
  assumes "\<And>k. k \<in> set ks \<Longrightarrow> k < length row \<and> k * p + i < length imgs"
  shows "show_ranked imgs p i (Arr (map Sc row)) (map Sc ks) =
         (concat (map (\<lambda>k. [Show (imgs ! (k * p + i)), Score (row ! k)]) ks), None)"
  using assms
proof (induction ks)
  case Nil
  show ?case by simp
next
  case (Cons k ks)
  then have k: "k < length row" and q: "k * p + i < length imgs" by simp_all
  have prem: "\<And>j. j \<in> set ks \<Longrightarrow> j < length row \<and> j * p + i < length imgs"
    using Cons.prems by simp
  note r = Cons.IH[OF prem]
  show ?case using k q by (simp add: getitem_def r)
qed


lemma display_prompts_rows:
  assumes "length prompts = p" and "length imgs = m * p"
    and "\<And>i. i < p \<Longrightarrow> length (row i) = m"
    and "i \<le> p"
  shows "display_prompts imgs p (Arr (map (\<lambda>i. Arr (map Sc (row i))) [0..<p])) i (drop i prompts) =
         (concat (map (\<lambda>i. Prompt (prompts ! i) #
                    concat (map (\<lambda>k. [Show (imgs ! (k * p + i)), Score (row i ! k)])
                             (rev (argsort_list (row i)))))
                  [i..<p]), None)"
  using assms(4)
proof (induction "p - i" arbitrary: i)
  case 0
  then show ?case using assms(1) by simp
next
  case (Suc n)
  then have i: "i < p" and n: "n = p - Suc i" and le: "Suc i \<le> p" by simp_all
  have d: "drop i prompts = prompts ! i # drop (Suc i) prompts"
    using i assms(1) by (simp add: Cons_nth_drop_Suc)
  have u: "[i..<p] = i # [Suc i..<p]" using i by (simp add: upt_conv_Cons)
  have g: "getitem (Arr (map (\<lambda>i. Arr (map Sc (row i))) [0..<p])) i = Inr (Arr (map Sc (row i)))"
    using i by (simp add: getitem_def del: upt_Suc)
  have s: "show_ranked imgs p i (Arr (map Sc (row i))) (map Sc (rev (argsort_list (row i)))) =
           (concat (map (\<lambda>k. [Show (imgs ! (k * p + i)), Score (row i ! k)])
              (rev (argsort_list (row i)))), None)"
  proof (rule show_ranked_row)
    fix k assume "k \<in> set (rev (argsort_list (row i)))"
    then have k: "k < m" using assms(3)[OF i] by (simp add: set_argsort_list)
    have "i + k * p < m * p" by (rule position_in_range[OF i k])
    then show "k < length (row i) \<and> k * p + i < length imgs"
      using k assms(2) assms(3)[OF i] by (simp add: add.commute)
  qed
  show ?case
    unfolding d u
    by (simp only: display_prompts.simps g sum.case argsort_row rev_map s prod.case
          option.case Suc.hyps(1)[OF n le] list.map concat.simps append_Cons)
qed

lemma argsort_list_ascending:
  "sorted (map (\<lambda>k. vs ! k) (argsort_list vs)) \<and> distinct (argsort_list vs) \<and>
   set (argsort_list vs) = {0..<length vs}"
  by (simp add: argsort_list_def)

text \<open>
  On one device, with at least two prompts and at least two images for each, whose
  scores for a prompt all differ, the two cells show exactly the ranking of the
  specification.
\<close>

theorem ranking_single_device:
  assumes "2 \<le> length prompts" and "length imgs = m * length prompts" and "2 \<le> m"
    and "\<And>i. i < length prompts \<Longrightarrow> distinct (prompt_scores clip_score prompts imgs i)"
  shows "rank_images clip_score 1 prompts imgs = (ranked_display clip_score prompts imgs, None)"
proof -
  have p1: "length prompts \<noteq> 1" and m1: "m \<noteq> 1" using assms(1,3) by simp_all
  let ?p = "length prompts"
  let ?row = "prompt_scores clip_score prompts imgs"
  have l: "length (?row i) = m" if "i < ?p" for i
  proof -
    from that have "0 < ?p" by (cases prompts) simp_all
    then show ?thesis using assms(2) by (simp add: length_prompt_scores)
  qed
  have e: "\<And>i. i < ?p \<Longrightarrow>
        map (\<lambda>k. [Show (imgs ! (k * ?p + i)), Score (?row i ! k)]) (rev (argsort_list (?row i))) =
        map (\<lambda>k. [Show (imgs ! (i + k * ?p)),
                   Score (clip_score (imgs ! (i + k * ?p)) (prompts ! i))])
          (rev (argsort_list (?row i)))"
  proof (rule map_cong[OF refl])
    fix i k assume i: "i < ?p" and "k \<in> set (rev (argsort_list (?row i)))"
    then have "k < length imgs div ?p"
      by (simp add: set_argsort_list length_prompt_scores)
    then have "?row i ! k = clip_score (imgs ! (i + k * ?p)) (prompts ! i)"
      by (simp add: prompt_scores_def)
    then show "[Show (imgs ! (k * ?p + i)), Score (?row i ! k)] =
               [Show (imgs ! (i + k * ?p)), Score (clip_score (imgs ! (i + k * ?p)) (prompts ! i))]"
      by (simp add: add.commute)
  qed
  have "display_prompts imgs ?p (Arr (map (\<lambda>i. Arr (map Sc (?row i))) [0..<?p])) 0 (drop 0 prompts) =
        (concat (map (\<lambda>i. Prompt (prompts ! i) #
                    concat (map (\<lambda>k. [Show (imgs ! (k * ?p + i)), Score (?row i ! k)])
                             (rev (argsort_list (?row i)))))
                  [0..<?p]), None)"
    by (rule display_prompts_rows[OF refl assms(2) l]) simp_all
  also have "concat (map (\<lambda>i. Prompt (prompts ! i) #
                    concat (map (\<lambda>k. [Show (imgs ! (k * ?p + i)), Score (?row i ! k)])
                             (rev (argsort_list (?row i)))))
                  [0..<?p]) = ranked_display clip_score prompts imgs"
    unfolding ranked_display_def
    by (rule arg_cong[where f = concat], rule map_cong[OF refl]) (simp add: e)
  finally show ?thesis
    by (simp add: rank_images_def clip_logits_one organize_scores_one[OF p1 assms(2) m1])
qed

subsection \<open>The images of one pass, pixel by pixel\<close>


lemma new_images_explicit:
  "new_images L cfg tps subkey =
     map (fromarray L) (map (map clip01) (concat (map (decode_code L)
       (map (map tl) (map (\<lambda>k. model_generate L tps k cfg) (shard_prng_key L subkey))))))"
  unfolding new_images_def encoded_def remove_bos_tl by (simp add: o_def)



lemma toy_bos_matters:
  "decode_code (toy_library d) [[16384, 16000, 0]] \<noteq> decode_code (toy_library d) [[16000, 0]]"
  using image_size_pos by (simp add: toy_decode_code replicate_eq_replicate)

section \<open>The claims\<close>

subsection \<open>The number of passes\<close>

text \<open>
  Claim C1, as amended. For every \<open>n_predictions \<ge> 1\<close> and every device count
  \<open>\<ge> 1\<close>, the generation cell makes exactly \<open>max (n_predictions div device_count) 1\<close>
  passes through its loop (floor division), and this number is
  \<open>ceil (n_predictions / device_count)\<close> exactly when the device count divides
  \<open>n_predictions\<close> or is larger than it.
\<close>

theorem rounds_floor_division:
  assumes "well_shaped L" and "0 < device_count L" and "1 \<le> n"
  shows "rounds_performed (generate_images L cfg tps n k0) =
           Some (nat (max (n div int (device_count L)) 1)) \<and>
         (nat (max (n div int (device_count L)) 1) = nat \<lceil>real_of_int n / real (device_count L)\<rceil>
            \<longleftrightarrow> int (device_count L) dvd n \<or> n < int (device_count L))"
  using rounds_performed_closed[OF assms(1,2)] rounds_vs_ceiling[OF assms(3,2)] by simp

theorem rounds_floor_division_witness:
  "well_shaped (toy_library 4) \<and> 0 < device_count (toy_library 4) \<and> (1::int) \<le> 8 \<and>
   rounds_performed (generate_images (toy_library 4) default_config [0, 1] 8 7) = Some 2 \<and>
   nat \<lceil>real_of_int 8 / real (4::nat)\<rceil> = 2"
  using rounds_floor_division[of "toy_library 4" 8 default_config "[0, 1]" 7] toy_well_shaped[of 4]
  by (simp add: toy_library_def)

text \<open>
  The claim as the specification states it fails: with 9 predictions on 4 devices
  the cell makes 2 passes, and \<open>ceil (9 / 4) = 3\<close>.
\<close>

theorem rounds_not_ceiling:
  "rounds_performed (generate_images (toy_library 4) default_config [0] 9 7) = Some 2 \<and>
   rounds_performed (generate_images (toy_library 4) default_config [0] 9 7)
     \<noteq> Some (nat \<lceil>real_of_int 9 / real (4::nat)\<rceil>)"
proof -
  have "rounds_performed (generate_images (toy_library 4) default_config [0] 9 7) =
        Some (nat (max (9 div int (device_count (toy_library 4 :: (nat, nat) library))) 1))"
    by (rule rounds_performed_closed[OF toy_well_shaped]) (simp add: toy_library_def)
  then have r: "rounds_performed (generate_images (toy_library 4) default_config [0] 9 7) = Some 2"
    by (simp add: toy_library_def)
  have "\<lceil>(9::real) / 4\<rceil> = 3" by (simp add: ceiling_eq_iff)
  then show ?thesis using r by simp
qed

subsection \<open>The number of images\<close>

text \<open>
  Claim C2, as amended. For every \<open>n_predictions \<ge> 1\<close>, device count \<open>\<ge> 1\<close> and
  at least one prompt, after the loop the image list has
  \<open>rounds * device_count * prompt_count\<close> entries, where \<open>rounds\<close> is the number of
  passes made, \<open>max (n_predictions div device_count) 1\<close>. Per prompt that is
  \<open>n_predictions\<close> rounded down to a multiple of the device count, but at least the
  device count. The length is at least \<open>n_predictions\<close> when the device count divides
  \<open>n_predictions\<close> or is larger than it.
\<close>

theorem images_count:
  assumes "well_shaped L" and "0 < device_count L" and "1 \<le> n" and "tps \<noteq> []"
  shows "rounds_performed (generate_images L cfg tps n k0) =
           Some (nat (max (n div int (device_count L)) 1)) \<and>
         images_produced (generate_images L cfg tps n k0) =
           Some (nat (max (n div int (device_count L)) 1) * (device_count L * length tps)) \<and>
         nat (max (n div int (device_count L)) 1) * device_count L =
           max (nat (n div int (device_count L)) * device_count L) (device_count L) \<and>
         (int (device_count L) dvd n \<or> n < int (device_count L) \<longrightarrow>
            n \<le> int (nat (max (n div int (device_count L)) 1) * (device_count L * length tps)))"
proof -
  let ?d = "device_count L"
  let ?k = "nat (max (n div int ?d) 1)"
  have p: "1 \<le> length tps" using assms(4) by (cases tps) simp_all
  have q0: "0 \<le> n div int ?d" using assms(2,3) by (simp add: pos_imp_zdiv_nonneg_iff)
  have a: "?k * ?d = max (nat (n div int ?d) * ?d) ?d"
  proof (cases "1 \<le> n div int ?d")
    case True
    then have "?k = nat (n div int ?d)" by simp
    moreover have "?d \<le> nat (n div int ?d) * ?d" using True by (cases "nat (n div int ?d)") simp_all
    ultimately show ?thesis by simp
  next
    case False
    then have "n div int ?d = 0" using q0 by simp
    then show ?thesis by simp
  qed
  have b: "n \<le> int (?k * (?d * length tps))" if h: "int ?d dvd n \<or> n < int ?d"
  proof -
    have "n \<le> int (?k * ?d)"
    proof (cases "n < int ?d")
      case True
      then have "n div int ?d = 0" using assms(3) by simp
      then show ?thesis using True by simp
    next
      case False
      with h have dv: "int ?d dvd n" by simp
      then have "n = (n div int ?d) * int ?d" by simp
      moreover have "n div int ?d \<le> int ?k" by simp
      ultimately show ?thesis
        by (metis mult_right_mono of_nat_0_le_iff of_nat_mult)
    qed
    also have "int (?k * ?d) \<le> int (?k * ?d * length tps)"
    proof -
      have "?k * ?d * 1 \<le> ?k * ?d * length tps" by (rule mult_le_mono2[OF p])
      then have "?k * ?d \<le> ?k * ?d * length tps" by simp
      then show ?thesis by (rule iffD2[OF of_nat_le_iff])
    qed
    finally show ?thesis by (simp add: mult.assoc)
  qed
  show ?thesis
    using rounds_performed_closed[OF assms(1,2)] images_produced_closed[OF assms(1,2)] a b
    by blast
qed

theorem images_count_witness:
  "well_shaped (toy_library 4) \<and> 0 < device_count (toy_library 4) \<and> (1::int) \<le> 8 \<and>
   [0, 1 :: nat] \<noteq> [] \<and> int 4 dvd 8 \<and>
   rounds_performed (generate_images (toy_library 4) default_config [0, 1] 8 7) = Some 2 \<and>
   images_produced (generate_images (toy_library 4) default_config [0, 1] 8 7) = Some 16 \<and>
   (8::int) \<le> 16"
  using images_count[of "toy_library 4" 8 "[0, 1]" default_config 7] toy_well_shaped[of 4]
  by (simp add: toy_library_def)

text \<open>
  The claim as the specification states it fails: with 9 predictions, 4 devices and
  one prompt the list has 8 images, fewer than 9 (and 9 rounded up to a multiple
  of the batch of 4 is 12).
\<close>

theorem images_fewer_than_requested:
  "images_produced (generate_images (toy_library 4) default_config [0] 9 7) = Some 8 \<and>
   \<not> (9::nat) \<le> 8"
proof -
  have "images_produced (generate_images (toy_library 4) default_config [0] 9 7) =
        Some (nat (max (9 div int (device_count (toy_library 4 :: (nat, nat) library))) 1) *
          (device_count (toy_library 4 :: (nat, nat) library) * length [0::nat]))"
    by (rule images_produced_closed[OF toy_well_shaped]) (simp add: toy_library_def)
  then show ?thesis by (simp add: toy_library_def)
qed

subsection \<open>The range of a converted pixel\<close>

text \<open>
  Claim C10, as amended. For every decoded pixel value other than NaN (the
  infinities included), the clipped value scaled by 255 lies in \<open>[0, 255]\<close>, so
  the cast to an unsigned 8-bit integer does not wrap around: the byte is the
  integer part of the scaled value. NaN stays NaN through the clip and the
  scaling. The product is rounded by any monotone rounding that is exact on 0 and
  255.
\<close>

theorem uint8_cast_in_range:
  assumes "rounding (float_round L)" and "x \<noteq> NaN"
  shows "in_byte_range (scale255 L (clip01 x)) \<and>
         (\<exists>y. scale255 L (clip01 x) = Finite y \<and> 0 \<le> y \<and> y \<le> 255 \<and>
              uint (to_uint8 (scale255 L (clip01 x))) = \<lfloor>y\<rfloor>) \<and>
         (\<forall>r. scale255 L (clip01 (Finite r)) = Finite (float_round L (min (max r 0) 1 * 255))) \<and>
         scale255 L (clip01 NaN) = NaN"
proof -
  from clip01_finite[OF assms(2)] obtain c where c: "clip01 x = Finite c" "0 \<le> c" "c \<le> 1"
    by blast
  have "0 \<le> c * 255" and "c * 255 \<le> 255" using c(2,3) by simp_all
  then have r: "0 \<le> float_round L (c * 255) \<and> float_round L (c * 255) \<le> 255"
    by (rule rounding_range[OF assms(1)])
  then have "uint (to_uint8 (Finite (float_round L (c * 255)))) = \<lfloor>float_round L (c * 255)\<rfloor>"
    by (simp only: to_uint8_exact)
  then show ?thesis using r by (simp add: c(1))
qed

theorem uint8_cast_in_range_witness:
  "rounding (float_round (toy_library 1)) \<and> Finite (3 / 2) \<noteq> NaN \<and>
   scale255 (toy_library 1) (clip01 (Finite (3 / 2))) = Finite 255 \<and>
   uint (to_uint8 (scale255 (toy_library 1) (clip01 (Finite (3 / 2))))) = 255"
proof -
  have s: "scale255 (toy_library 1) (clip01 (Finite (3 / 2))) = Finite 255"
    by (simp add: toy_library_def)
  show ?thesis
    using uint8_cast_in_range[OF toy_rounding, of "Finite (3 / 2)" 1] toy_rounding[of 1] s
    by simp
qed

text \<open>
  The claim as stated, for every value, fails at NaN: it is not clipped, and its
  product with 255 is NaN, which lies in no range.
\<close>

theorem nan_not_in_byte_range:
  "scale255 (toy_library 1) (clip01 NaN) = NaN \<and>
   \<not> in_byte_range (scale255 (toy_library 1) (clip01 NaN))"
  by simp

subsection \<open>The keys of a run\<close>

text \<open>
  Claim C4. Two runs of the generation cell that start from the same key, with the
  same device count and the same number of predictions (hence of passes), derive
  the same sequence of key shards and end with the same running key, whatever the
  prompts, the settings, the generator and the decoder of each run are: the keys
  depend on the starting key and the two PRNG functions only.
\<close>

theorem key_derivation_deterministic:
  fixes L1 :: "('key, 'p1) library" and L2 :: "('key, 'p2) library"
  assumes "well_shaped L1" and "well_shaped L2"
    and "device_count L1 = device_count L2"
    and "random_split L1 = random_split L2"
    and "shard_prng_key L1 = shard_prng_key L2"
  shows "derived_keys (generate_images L1 cfg1 tps1 n k0) =
         derived_keys (generate_images L2 cfg2 tps2 n k0)"
proof (cases "device_count L1 = 0")
  case True
  then show ?thesis using assms(3)
    by (simp add: generate_images_def n_rounds_def derived_keys_def)
next
  case False
  then have p1: "0 < device_count L1" and p2: "0 < device_count L2" using assms(3) by simp_all
  show ?thesis
    unfolding derived_keys_closed[OF assms(1) p1] derived_keys_closed[OF assms(2) p2]
    by (simp add: assms(3)[symmetric] assms(5) chain_cong[OF assms(4)] del: upt_Suc)
qed

theorem key_derivation_deterministic_witness:
  "well_shaped (toy_library 2) \<and> well_shaped (alt_library 2) \<and>
   derived_keys (generate_images (toy_library 2) default_config [0, 1] 4 7) =
   derived_keys (generate_images (alt_library 2)
     (default_config\<lparr>temperature := Some 2\<rparr>) [5] 4 7)"
  using key_derivation_deterministic[of "toy_library 2" "alt_library 2" default_config
      "[0, 1]" 4 7 "default_config\<lparr>temperature := Some 2\<rparr>" "[5]"]
    toy_well_shaped[of 2] alt_well_shaped[of 2]
  by (simp add: toy_library_def alt_library_def)

subsection \<open>A single device\<close>

text \<open>
  Claim C5. For every \<open>n_predictions \<ge> 1\<close>, with one device the generation cell
  makes exactly \<open>n_predictions\<close> passes, each with a batch of one key shard, that
  is one image per prompt and pass.
\<close>

theorem single_device_rounds:
  assumes "well_shaped L" and "device_count L = 1" and "1 \<le> n"
  shows "rounds_performed (generate_images L cfg tps n k0) = Some (nat n) \<and>
         batch_sizes (generate_images L cfg tps n k0) = Some (replicate (nat n) 1) \<and>
         images_produced (generate_images L cfg tps n k0) = Some (nat n * length tps)"
proof -
  have p: "0 < device_count L" using assms(2) by simp
  have k: "nat (max (n div int (device_count L)) 1) = nat n" using assms(2,3) by simp
  show ?thesis
    using rounds_performed_closed[OF assms(1) p, of cfg tps n k0]
      batch_sizes_closed[OF assms(1) p, of cfg tps n k0]
      images_produced_closed[OF assms(1) p, of cfg tps n k0]
    unfolding k by (simp add: assms(2))
qed

theorem single_device_rounds_witness:
  "well_shaped (toy_library 1) \<and> device_count (toy_library 1) = 1 \<and> (1::int) \<le> 3 \<and>
   rounds_performed (generate_images (toy_library 1) default_config [0, 1] 3 7) = Some 3 \<and>
   batch_sizes (generate_images (toy_library 1) default_config [0, 1] 3 7) = Some [1, 1, 1] \<and>
   images_produced (generate_images (toy_library 1) default_config [0, 1] 3 7) = Some 6"
  using single_device_rounds[of "toy_library 1" 3 default_config "[0, 1]" 7] toy_well_shaped[of 1]
  by (simp add: toy_library_def numeral_3_eq_3)

subsection \<open>Fewer predictions than devices\<close>

text \<open>
  Claim C9. For every \<open>n_predictions\<close> with \<open>0 \<le> n_predictions < device_count\<close>
  (zero included) the generation cell makes exactly one pass and produces
  \<open>device_count * prompt_count\<close> images; for every \<open>n_predictions\<close> at all, the
  cell completes and never makes zero passes.
\<close>

theorem at_least_one_round:
  assumes "well_shaped L" and "0 < device_count L"
  shows "(0 \<le> n \<and> n < int (device_count L) \<longrightarrow>
            rounds_performed (generate_images L cfg tps n k0) = Some 1 \<and>
            images_produced (generate_images L cfg tps n k0) = Some (device_count L * length tps)) \<and>
         rounds_performed (generate_images L cfg tps n k0) \<noteq> None \<and>
         rounds_performed (generate_images L cfg tps n k0) \<noteq> Some 0"
proof -
  have r: "rounds_performed (generate_images L cfg tps n k0) =
           Some (nat (max (n div int (device_count L)) 1))"
    by (rule rounds_performed_closed[OF assms])
  have i: "images_produced (generate_images L cfg tps n k0) =
           Some (nat (max (n div int (device_count L)) 1) * (device_count L * length tps))"
    by (rule images_produced_closed[OF assms])
  have "nat (max (n div int (device_count L)) 1) = 1" if "0 \<le> n" and "n < int (device_count L)"
    using that by simp
  moreover have "nat (max (n div int (device_count L)) 1) \<noteq> 0" by simp
  ultimately show ?thesis unfolding r i by simp
qed

theorem at_least_one_round_witness:
  "well_shaped (toy_library 4) \<and> 0 < device_count (toy_library 4) \<and>
   (0::int) \<le> 0 \<and> 0 < int (device_count (toy_library 4)) \<and>
   rounds_performed (generate_images (toy_library 4) default_config [0, 1] 0 7) = Some 1 \<and>
   images_produced (generate_images (toy_library 4) default_config [0, 1] 0 7) = Some 8"
  using at_least_one_round[of "toy_library 4" 0 default_config "[0, 1]" 7] toy_well_shaped[of 4]
  by (simp add: toy_library_def)

subsection \<open>One pass of the loop\<close>

text \<open>
  Claim C6. In every pass the running key is split once into exactly two keys:
  the first replaces the running key, the second is sharded over the devices and
  given to the generator, one shard per device: the images the pass appends are
  made of what the generator returns for these shards. So after \<open>k\<close> passes the
  running key has been replaced exactly \<open>k\<close> times, each time by the first half
  of its split, and the generator has been called \<open>k\<close> times.
\<close>

theorem seed_split_once:
  assumes "well_shaped L"
  shows "(\<exists>st' subkey.
            generation_round L cfg (replicate (device_count L) tps) st = Inr st' \<and>
            random_split L (key st) = [key st', subkey] \<and>
            generate_calls st' = generate_calls st @ [shard_prng_key L subkey] \<and>
            images st' = images st @
              map (fromarray L) (map (map clip01) (concat (map (decode_code L)
                (map (map tl)
                  (map (\<lambda>k. model_generate L tps k cfg) (shard_prng_key L subkey))))))) \<and>
         (\<exists>st'. run_rounds L cfg (replicate (device_count L) tps) k st = Inr st' \<and>
            key st' = ((\<lambda>k. hd (random_split L k)) ^^ k) (key st) \<and>
            length (generate_calls st') = length (generate_calls st) + k)"
proof -
  let ?sub = "handed L (key st)"
  let ?st' = "st\<lparr>key := retained L (key st),
                 images := images st @ new_images L cfg tps ?sub,
                 generate_calls := generate_calls st @ [shard_prng_key L ?sub],
                 decode_calls := decode_calls st @ [encoded L cfg tps ?sub]\<rparr>"
  have a: "generation_round L cfg (replicate (device_count L) tps) st = Inr ?st'"
    by (rule generation_round_closed[OF assms])
  have b: "random_split L (key st) = [key ?st', ?sub]"
    by (simp add: split_two[OF assms])
  have c: "generate_calls ?st' = generate_calls st @ [shard_prng_key L ?sub]"
    by simp
  have "images ?st' = images st @ new_images L cfg tps ?sub" by simp
  then have d: "images ?st' = images st @
      map (fromarray L) (map (map clip01) (concat (map (decode_code L)
        (map (map tl) (map (\<lambda>k. model_generate L tps k cfg) (shard_prng_key L ?sub))))))"
    unfolding new_images_explicit .
  have r: "(\<lambda>k. hd (random_split L k)) = retained L"
    by (simp add: fun_eq_iff retained_def)
  have e: "\<exists>st'. run_rounds L cfg (replicate (device_count L) tps) k st = Inr st' \<and>
            key st' = ((\<lambda>k. hd (random_split L k)) ^^ k) (key st) \<and>
            length (generate_calls st') = length (generate_calls st) + k"
    unfolding run_rounds_closed[OF assms] r by (simp add: chain_def del: upt_Suc)
  from a b c d e show ?thesis by blast
qed

theorem seed_split_once_witness:
  "well_shaped (toy_library 2) \<and>
   (\<exists>st' subkey.
      generation_round (toy_library 2) default_config (replicate 2 [0, 1]) (fresh 7) = Inr st' \<and>
      [15, 16] = [key st', subkey] \<and>
      generate_calls st' = [[16000, 16001]] \<and>
      images st' = [replicate image_size 191, replicate image_size 255,
                    replicate image_size 255, replicate image_size 0])"
  using seed_split_once[of "toy_library 2" default_config "[0, 1]" "fresh 7" 0] toy_well_shaped[of 2]
    toy_pass
  by (auto simp: toy_device_count toy_random_split toy_shard_2 fresh_def)

text \<open>
  Claim C7. In every pass, each sequence given to the decoder is the sequence the
  generator returned without its first element (the begin-of-sequence token), so
  it is one token shorter: the images the pass appends are made of what the
  decoder returns for these shortened sequences.
\<close>

theorem bos_removed_before_decoding:
  assumes "well_shaped L"
  shows "\<exists>st' subkey sequences.
           generation_round L cfg (replicate (device_count L) tps) st = Inr st' \<and>
           random_split L (key st) = [key st', subkey] \<and>
           p_generate L (replicate (device_count L) tps) (shard_prng_key L subkey) cfg =
             Inr sequences \<and>
           p_generate L (replicate (device_count L) tps) (last (generate_calls st')) cfg =
             Inr sequences \<and>
           images st' = images st @
             map (fromarray L) (map (map clip01)
               (concat (map (decode_code L) (map (map tl) sequences)))) \<and>
           decode_calls st' = decode_calls st @ [map (map tl) sequences] \<and>
           map (map length) (last (decode_calls st')) = map (map (\<lambda>s. length s - 1)) sequences"
proof -
  let ?sub = "handed L (key st)"
  let ?seqs = "map (\<lambda>k. model_generate L tps k cfg) (shard_prng_key L ?sub)"
  let ?st' = "st\<lparr>key := retained L (key st),
                 images := images st @ new_images L cfg tps ?sub,
                 generate_calls := generate_calls st @ [shard_prng_key L ?sub],
                 decode_calls := decode_calls st @ [encoded L cfg tps ?sub]\<rparr>"
  have a: "generation_round L cfg (replicate (device_count L) tps) st = Inr ?st'"
    by (rule generation_round_closed[OF assms])
  have b: "random_split L (key st) = [key ?st', ?sub]"
    by (simp add: split_two[OF assms])
  have c: "p_generate L (replicate (device_count L) tps) (shard_prng_key L ?sub) cfg = Inr ?seqs"
    by (rule p_generate_closed[OF assms])
  have "last (generate_calls ?st') = shard_prng_key L ?sub" by simp
  with c have c': "p_generate L (replicate (device_count L) tps) (last (generate_calls ?st')) cfg =
                   Inr ?seqs"
    by simp
  have "images ?st' = images st @ new_images L cfg tps ?sub" by simp
  then have d: "images ?st' = images st @
      map (fromarray L) (map (map clip01) (concat (map (decode_code L) (map (map tl) ?seqs))))"
    unfolding new_images_explicit .
  have en: "encoded L cfg tps ?sub = map (map tl) ?seqs"
    unfolding encoded_def remove_bos_tl ..
  have f: "decode_calls ?st' = decode_calls st @ [map (map tl) ?seqs]"
    by (simp add: en del: map_map)
  have g: "map (map length) (last (decode_calls ?st')) = map (map (\<lambda>s. length s - 1)) ?seqs"
    by (simp add: en o_def)
  from a b c c' d f g show ?thesis by blast
qed

theorem bos_removed_before_decoding_witness:
  "well_shaped (toy_library 2) \<and>
   (\<exists>st' sequences.
      generation_round (toy_library 2) default_config (replicate 2 [0, 1]) (fresh 7) = Inr st' \<and>
      p_generate (toy_library 2) (replicate 2 [0, 1]) [16000, 16001] default_config =
        Inr sequences \<and>
      sequences = [[[16384, 16000, 0], [16384, 16000, 1]], [[16384, 16001, 0], [16384, 16001, 1]]] \<and>
      decode_calls st' = [[[[16000, 0], [16000, 1]], [[16001, 0], [16001, 1]]]] \<and>
      images st' =
        map (fromarray (toy_library 2)) (map (map clip01)
          (concat (map (decode_code (toy_library 2)) (map (map tl) sequences)))) \<and>
      images st' = [replicate image_size 191, replicate image_size 255,
                    replicate image_size 255, replicate image_size 0]) \<and>
   decode_code (toy_library 2) [[16384, 16000, 0]] \<noteq> decode_code (toy_library 2) [[16000, 0]]"
proof -
  have g: "p_generate (toy_library 2) (replicate 2 [0, 1]) [16000, 16001] default_config =
           Inr [[[16384, 16000, 0], [16384, 16000, 1]], [[16384, 16001, 0], [16384, 16001, 1]]]"
    by (simp add: p_generate_def toy_library_def numeral_2_eq_2)
  show ?thesis
    using bos_removed_before_decoding[of "toy_library 2" default_config "[0, 1]" "fresh 7"]
      toy_well_shaped[of 2] toy_pass toy_bos_matters[of 2] g
    by (auto simp: toy_device_count toy_random_split toy_shard_2 fresh_def)
qed




subsection \<open>The ranking\<close>

text \<open>
  Claim C3 asks that, for every number \<open>p \<ge> 1\<close> of prompts, the ranking shows for
  the prompt \<open>i\<close> the images at the positions \<open>i, i + p, i + 2p, \<dots>\<close> in the
  descending order of their scores, each with its score. With a single prompt on
  a single device the cells do not: \<^verbatim>\<open>.squeeze()\<close> removes the axis of the prompts
  together with the axis of the devices, \<^verbatim>\<open>logits[0]\<close> is the score of the first
  image alone, and after displaying that image the cell stops with an IndexError,
  where the claim asks for the three images in the order of their scores.
\<close>

theorem single_prompt_ranking_stops:
  "rank_images toy_score 1 [''sunset''] [[1], [3], [2]] =
     ([Prompt ''sunset'', Show [1]], Some IndexError) \<and>
   ranked_display toy_score [''sunset''] [[1], [3], [2]] =
     [Prompt ''sunset'', Show [3], Score (63 / 10), Show [2], Score (31 / 5),
      Show [1], Score (61 / 10)]"
  by code_simp

text \<open>
  With two prompts and two images for each, the same cells rank as specified. With
  one image for each prompt the squeezed array has lost the axis of the images,
  and on two devices with two passes it keeps three axes, so that an index is an
  array.
\<close>

lemma two_prompts_ranking:
  "rank_images toy_score 1 [''a'', ''bb''] [[1], [2], [4], [3]] =
     ([Prompt ''a'', Show [4], Score (7 / 5), Show [1], Score (11 / 10),
       Prompt ''bb'', Show [3], Score (23 / 10), Show [2], Score (11 / 5)], None)"
  by code_simp

lemma one_image_per_prompt_ranking:
  "rank_images toy_score 1 [''a'', ''bb''] [[1], [2]] =
     ([Prompt ''a'', Show [1]], Some IndexError)"
  by code_simp

lemma two_devices_two_passes_ranking:
  "rank_images toy_score 2 [''a'', ''bb''] [[1], [2], [4], [3], [7], [0], [9], [8]] =
     ([Prompt ''a''], Some TypeError)"
  by code_simp

end
